theory Spec2Isabelle
  imports Main
begin

section \<open>Data model\<close>

text \<open>
  The interfaces of \<^verbatim>\<open>agent.interface.ts\<close> and the entity of
  \<^verbatim>\<open>agent-execution.entity.ts\<close>. A TypeScript \<^verbatim>\<open>number\<close> that counts
  milliseconds is an \<open>int\<close>; an optional field is an \<open>option\<close>; a value of type
  \<^verbatim>\<open>any\<close> is a value of the type parameter \<open>'a\<close>. Field names that occur in
  several interfaces carry a prefix in all but one of them.
\<close>

record AgentConfig =
  name :: string
  type :: string
  enabled :: bool
  role :: string
  description :: string
  timeout :: int
  retryAttempts :: int
  maxConcurrent :: int

record 'a AgentOutput =
  success :: bool
  result :: "'a option"
  error :: "string option"
  duration :: int
  tokensUsed :: "int option"
  agentExecutionId :: "string option"
  nextActions :: "string list option"

text \<open>
  The context of a task is whatever the caller passes; the workflow loop passes
  \<^verbatim>\<open>{ previousResults: Object.fromEntries(stepResults) }\<close>.
\<close>

datatype 'a TaskContext =
    Opaque 'a
  | PreviousResults "string \<rightharpoonup> 'a AgentOutput"

record Metadata =
  timestamp :: string
  requestId :: string

record 'a AgentInput =
  task :: string
  task_context :: "'a TaskContext option"
  projectId :: "string option"
  taskId :: "string option"
  metadata :: "Metadata option"

datatype Status = Queued | Running | Completed | Failed | Timeout

text \<open>
  The columns of \<^verbatim>\<open>AgentExecution\<close> that \<^verbatim>\<open>processTask\<close> writes
  (\<^verbatim>\<open>metadata\<close> and \<^verbatim>\<open>updatedAt\<close> are never assigned by it).
\<close>

record AgentExecution =
  ex_id :: string
  ex_agentType :: string
  ex_agentName :: string
  ex_status :: Status
  ex_input :: string
  ex_output :: "string option"
  ex_error :: "string option"
  ex_taskId :: "string option"
  ex_projectId :: "string option"
  ex_duration :: "int option"
  ex_tokensUsed :: "int option"
  ex_startedAt :: "int option"
  ex_completedAt :: "int option"

text \<open>A thrown JavaScript \<^verbatim>\<open>Error\<close>, read through \<^verbatim>\<open>error.message\<close>.\<close>

datatype exn = Error (message: string)

text \<open>
  An agent: its stored configuration and the abstract method \<^verbatim>\<open>execute\<close>, which
  resolves with an output or rejects.
\<close>

record 'a BaseAgent =
  config :: AgentConfig
  execute :: "'a AgentInput \<Rightarrow> exn + 'a AgentOutput"

text \<open>
  Everything one call of \<^verbatim>\<open>executeTask\<close>/\<^verbatim>\<open>processTask\<close> takes from outside
  the program: the generated identifiers, the clock readings in the order the code takes
  them, \<^verbatim>\<open>JSON.stringify\<close> (which throws on a cyclic value and gives
  \<^verbatim>\<open>undefined\<close> for \<^verbatim>\<open>undefined\<close>), and whether the \<open>k\<close>-th
  \<^verbatim>\<open>agentExecutionRepo.save\<close> of the call resolves (\<open>None\<close>) or rejects.
\<close>

record 'a env =
  uuidv4 :: string
  iso_timestamp :: string
  generateRequestId :: string
  t_start :: int
  t_startedAt :: int
  t_try_end :: int
  t_try_completedAt :: int
  t_catch_end :: int
  t_catch_completedAt :: int
  stringify_input :: "'a AgentInput \<Rightarrow> exn + string"
  stringify_result :: "'a option \<Rightarrow> exn + string option"
  save_outcome :: "nat \<Rightarrow> exn option"

text \<open>
  The observable trace: every write the repository accepted, every write it rejected,
  and every invocation of an executor, in program order.
\<close>

datatype 'a event =
    Saved AgentExecution
  | SaveRejected AgentExecution
  | Executed string "'a AgentInput"

type_synonym 'a trace = "'a event list"

section \<open>The task wrapper: \<^verbatim>\<open>BaseAgent.processTask\<close>\<close>

definition isEnabled :: "'a BaseAgent \<Rightarrow> bool" where
  "isEnabled agent = enabled (config agent)"

text \<open>
  The \<^verbatim>\<open>catch\<close> block when \<^verbatim>\<open>agentExecution\<close> is assigned: the record as
  mutated so far is marked failed and saved again; a rejected save rejects the call.
\<close>

definition catch_with_record ::
  "'a env \<Rightarrow> nat \<Rightarrow> AgentExecution \<Rightarrow> exn \<Rightarrow> 'a trace \<Rightarrow> 'a trace \<times> (exn + 'a AgentOutput)" where
  "catch_with_record e k agentExecution err tr =
     (let dur = t_catch_end e - t_start e;
          failed = agentExecution\<lparr>ex_status := Failed, ex_error := Some (message err),
                     ex_duration := Some dur, ex_completedAt := Some (t_catch_completedAt e)\<rparr>
      in case save_outcome e k of
           Some rejected \<Rightarrow> (tr @ [SaveRejected failed], Inl rejected)
         | None \<Rightarrow>
             (tr @ [Saved failed],
              Inr \<lparr>success = False, result = None, error = Some (message err), duration = dur,
                   tokensUsed = None, agentExecutionId = Some (ex_id failed),
                   nextActions = None\<rparr>))"

definition processTask ::
  "'a BaseAgent \<Rightarrow> 'a env \<Rightarrow> 'a AgentInput \<Rightarrow> 'a trace \<Rightarrow> 'a trace \<times> (exn + 'a AgentOutput)" where
  "processTask agent e inp tr =
     (case stringify_input e inp of
        Inl err \<Rightarrow>
          (tr, Inr \<lparr>success = False, result = None, error = Some (message err),
                    duration = t_catch_end e - t_start e, tokensUsed = None,
                    agentExecutionId = None, nextActions = None\<rparr>)
      | Inr serialized \<Rightarrow>
          (let created = \<lparr>ex_id = uuidv4 e, ex_agentType = type (config agent),
                           ex_agentName = name (config agent), ex_status = Running,
                           ex_input = serialized, ex_output = None, ex_error = None,
                           ex_taskId = taskId inp, ex_projectId = projectId inp,
                           ex_duration = None, ex_tokensUsed = None,
                           ex_startedAt = Some (t_startedAt e), ex_completedAt = None\<rparr>
           in case save_outcome e 0 of
                Some rejected \<Rightarrow> catch_with_record e 1 created rejected (tr @ [SaveRejected created])
              | None \<Rightarrow>
                  (let tr1 = tr @ [Saved created, Executed (type (config agent)) inp]
                   in case execute agent inp of
                        Inl err \<Rightarrow> catch_with_record e 1 created err tr1
                      | Inr res \<Rightarrow>
                          (let marked = created\<lparr>ex_status := (if success res then Completed else Failed)\<rparr>
                           in case (if success res then stringify_result e (result res)
                                    else Inr (error res)) of
                                Inl err \<Rightarrow> catch_with_record e 1 marked err tr1
                              | Inr out \<Rightarrow>
                                  (let dur = t_try_end e - t_start e;
                                       final = marked\<lparr>ex_output := out, ex_error := error res,
                                                 ex_duration := Some dur,
                                                 ex_tokensUsed := tokensUsed res,
                                                 ex_completedAt := Some (t_try_completedAt e)\<rparr>
                                   in case save_outcome e 1 of
                                        Some rejected \<Rightarrow>
                                          catch_with_record e 2 final rejected
                                            (tr1 @ [SaveRejected final])
                                      | None \<Rightarrow>
                                          (tr1 @ [Saved final],
                                           Inr (res\<lparr>agentExecutionId := Some (ex_id final),
                                                     duration := dur\<rparr>)))))))"

text \<open>\<^verbatim>\<open>getConfig\<close> returns \<^verbatim>\<open>{ ...this.config }\<close>: the same field values.\<close>

definition getConfig :: "'a BaseAgent \<Rightarrow> AgentConfig" where
  "getConfig agent = config agent"

section \<open>The registry: \<^verbatim>\<open>AgentRegistry\<close>\<close>

text \<open>The private field \<^verbatim>\<open>agents: Map<string, BaseAgent>\<close>.\<close>

record 'a AgentRegistry =
  agents :: "string \<rightharpoonup> 'a BaseAgent"

text \<open>
  \<^verbatim>\<open>registerAgent\<close> warns when the type is taken, returns early for a disabled
  agent, and otherwise sets the entry. It has no \<^verbatim>\<open>throw\<close>.
\<close>

definition registerAgent :: "string \<Rightarrow> 'a BaseAgent \<Rightarrow> 'a AgentRegistry \<Rightarrow> 'a AgentRegistry" where
  "registerAgent ty agent reg =
     (if \<not> isEnabled agent then reg
      else reg\<lparr>agents := (agents reg)(ty \<mapsto> agent)\<rparr>)"

definition getAgent :: "'a AgentRegistry \<Rightarrow> string \<Rightarrow> 'a BaseAgent option" where
  "getAgent reg ty = agents reg ty"

text \<open>The message of \<^verbatim>\<open>new Error(m)\<close> is the empty string when \<^verbatim>\<open>m\<close> is undefined.\<close>

definition new_Error :: "string option \<Rightarrow> exn" where
  "new_Error m = (case m of None \<Rightarrow> Error [] | Some t \<Rightarrow> Error t)"

definition not_available :: "string \<Rightarrow> exn" where
  "not_available agentType = Error (''Agent type '' @ [CHR 0x27] @ agentType @ [CHR 0x27] @ '' not available'')"

definition executeTask ::
  "'a AgentRegistry \<Rightarrow> 'a env \<Rightarrow> string \<Rightarrow> string \<Rightarrow> 'a TaskContext option \<Rightarrow> string option \<Rightarrow>
     string option \<Rightarrow> 'a trace \<Rightarrow> 'a trace \<times> (exn + 'a AgentOutput)" where
  "executeTask reg e agentType tsk ctx pid tid tr =
     (case getAgent reg agentType of
        None \<Rightarrow> (tr, Inl (not_available agentType))
      | Some agent \<Rightarrow>
          (let inp = \<lparr>task = tsk, task_context = ctx, projectId = pid, taskId = tid,
                       metadata = Some \<lparr>timestamp = iso_timestamp e,
                                         requestId = generateRequestId e\<rparr>\<rparr>
           in case processTask agent e inp tr of
                (tr', Inl err) \<Rightarrow> (tr', Inl err)
              | (tr', Inr res) \<Rightarrow>
                  (if \<not> success res then (tr', Inl (new_Error (error res)))
                   else (tr', Inr res))))"

subsection \<open>\<^verbatim>\<open>executeTasks\<close>\<close>

record 'a TaskRequest =
  rq_agentType :: string
  rq_task :: string
  rq_context :: "'a TaskContext option"
  rq_projectId :: "string option"
  rq_taskId :: "string option"

text \<open>An element of the returned array: a task result, or the object built in \<^verbatim>\<open>.catch\<close>.\<close>

record FailureStub =
  fs_success :: bool
  fs_error :: string
  fs_agentType :: string

datatype 'a BatchResult = TaskResult "'a AgentOutput" | Stub FailureStub

text \<open>
  A settled promise is \<open>Inl\<close> (rejected) or \<open>Inr\<close> (fulfilled). \<^verbatim>\<open>p.catch(f)\<close>
  fulfils with \<open>f err\<close> when \<open>p\<close> rejects; \<^verbatim>\<open>Promise.all\<close> rejects with the
  first rejection and otherwise fulfils with all values in order.
\<close>

definition catch_promise :: "exn + 'v \<Rightarrow> (exn \<Rightarrow> 'v) \<Rightarrow> exn + 'v" where
  "catch_promise p f = (case p of Inl err \<Rightarrow> Inr (f err) | Inr v \<Rightarrow> Inr v)"

fun Promise_all :: "(exn + 'v) list \<Rightarrow> exn + 'v list" where
  "Promise_all [] = Inr []"
| "Promise_all (Inl err # ps) = Inl err"
| "Promise_all (Inr v # ps) = (case Promise_all ps of Inl err \<Rightarrow> Inl err | Inr vs \<Rightarrow> Inr (v # vs))"

text \<open>
  The callback of \<^verbatim>\<open>requests.map\<close>. The calls run one after the other here, the
  \<open>i\<close>-th call with the environment \<open>envs i\<close>.
\<close>

definition request_promise ::
  "'a AgentRegistry \<Rightarrow> 'a env \<Rightarrow> 'a TaskRequest \<Rightarrow> 'a trace \<Rightarrow> 'a trace \<times> (exn + 'a BatchResult)" where
  "request_promise reg e request tr =
     (case executeTask reg e (rq_agentType request) (rq_task request) (rq_context request)
             (rq_projectId request) (rq_taskId request) tr of
        (tr', p) \<Rightarrow>
          (tr', catch_promise (map_sum id TaskResult p)
                  (\<lambda>err. Stub \<lparr>fs_success = False, fs_error = message err,
                                 fs_agentType = rq_agentType request\<rparr>)))"

fun map_requests ::
  "'a AgentRegistry \<Rightarrow> (nat \<Rightarrow> 'a env) \<Rightarrow> nat \<Rightarrow> 'a TaskRequest list \<Rightarrow> 'a trace \<Rightarrow>
     'a trace \<times> (exn + 'a BatchResult) list" where
  "map_requests reg envs i [] tr = (tr, [])"
| "map_requests reg envs i (request # requests) tr =
     (case request_promise reg (envs i) request tr of
        (tr', p) \<Rightarrow>
          (case map_requests reg envs (Suc i) requests tr' of
             (tr'', ps) \<Rightarrow> (tr'', p # ps)))"

definition executeTasks ::
  "'a AgentRegistry \<Rightarrow> (nat \<Rightarrow> 'a env) \<Rightarrow> 'a TaskRequest list \<Rightarrow> 'a trace \<Rightarrow>
     'a trace \<times> (exn + 'a BatchResult list)" where
  "executeTasks reg envs requests tr =
     (case map_requests reg envs 0 requests tr of (tr', promises) \<Rightarrow> (tr', Promise_all promises))"

subsection \<open>\<^verbatim>\<open>orchestrateWorkflow\<close>\<close>

record WorkflowStep =
  step_agentType :: string
  step_task :: string
  dependencies :: "string list option"
  condition :: "string option"

record Workflow =
  wf_name :: string
  wf_steps :: "WorkflowStep list"

text \<open>An element of \<^verbatim>\<open>executedSteps\<close>: \<^verbatim>\<open>{ step, result, status }\<close> or
  \<^verbatim>\<open>{ step, error, status }\<close>.\<close>

record 'a ExecutedStep =
  step :: WorkflowStep
  step_result :: "'a AgentOutput option"
  step_error :: "string option"
  status :: string

record 'a WorkflowReport =
  workflow :: string
  totalSteps :: nat
  completedSteps :: nat
  failedSteps :: nat
  results :: "string \<rightharpoonup> 'a AgentOutput"
  steps :: "'a ExecutedStep list"

definition missingDeps :: "string list \<Rightarrow> (string \<rightharpoonup> 'a AgentOutput) \<Rightarrow> string list" where
  "missingDeps deps stepResults = filter (\<lambda>dep. stepResults dep = None) deps"

text \<open>The condition under which the loop body reaches \<^verbatim>\<open>continue\<close>.\<close>

definition skipped :: "WorkflowStep \<Rightarrow> (string \<rightharpoonup> 'a AgentOutput) \<Rightarrow> bool" where
  "skipped st stepResults =
     (case dependencies st of
        None \<Rightarrow> False
      | Some deps \<Rightarrow> length deps > 0 \<and> length (missingDeps deps stepResults) > 0)"

text \<open>
  The \<^verbatim>\<open>for\<close> loop over \<^verbatim>\<open>workflow.steps\<close>, from the step at position \<open>i\<close>
  on, with the two accumulators. A \<^verbatim>\<open>throw\<close> leaves the loop with \<open>Inl\<close>; the
  accumulators are local and are lost then.
\<close>

fun for_steps ::
  "'a AgentRegistry \<Rightarrow> string \<Rightarrow> (nat \<Rightarrow> 'a env) \<Rightarrow> nat \<Rightarrow> WorkflowStep list \<Rightarrow>
     'a ExecutedStep list \<Rightarrow> (string \<rightharpoonup> 'a AgentOutput) \<Rightarrow> 'a trace \<Rightarrow>
     'a trace \<times> (exn + 'a ExecutedStep list \<times> (string \<rightharpoonup> 'a AgentOutput))" where
  "for_steps reg nm envs i [] executedSteps stepResults tr = (tr, Inr (executedSteps, stepResults))"
| "for_steps reg nm envs i (st # rest) executedSteps stepResults tr =
     (if skipped st stepResults then for_steps reg nm envs (Suc i) rest executedSteps stepResults tr
      else
        (case executeTask reg (envs i) (step_agentType st) (step_task st)
                (Some (PreviousResults stepResults)) None None tr of
           (tr', Inr res) \<Rightarrow>
             for_steps reg nm envs (Suc i) rest
               (executedSteps @ [\<lparr>step = st, step_result = Some res, step_error = None,
                                    status = ''completed''\<rparr>])
               (stepResults(step_task st \<mapsto> res)) tr'
         | (tr', Inl err) \<Rightarrow>
             (if nm \<noteq> ''non-critical'' then (tr', Inl err)
              else
                for_steps reg nm envs (Suc i) rest
                  (executedSteps @ [\<lparr>step = st, step_result = None,
                                       step_error = Some (message err), status = ''failed''\<rparr>])
                  stepResults tr')))"

definition orchestrateWorkflow ::
  "'a AgentRegistry \<Rightarrow> (nat \<Rightarrow> 'a env) \<Rightarrow> Workflow \<Rightarrow> 'a trace \<Rightarrow>
     'a trace \<times> (exn + 'a WorkflowReport)" where
  "orchestrateWorkflow reg envs flow tr =
     (case for_steps reg (wf_name flow) envs 0 (wf_steps flow) [] Map.empty tr of
        (tr', Inl err) \<Rightarrow> (tr', Inl err)
      | (tr', Inr (executedSteps, stepResults)) \<Rightarrow>
          (tr', Inr \<lparr>workflow = wf_name flow,
                     totalSteps = length (wf_steps flow),
                     completedSteps = length (filter (\<lambda>s. status s = ''completed'') executedSteps),
                     failedSteps = length (filter (\<lambda>s. status s = ''failed'') executedSteps),
                     results = stepResults,
                     steps = executedSteps\<rparr>))"

section \<open>The service: \<^verbatim>\<open>AgentsService.executeAgentTask\<close>\<close>



section \<open>Reading the trace\<close>

text \<open>The records the repository accepted, in order.\<close>

fun writes :: "'a trace \<Rightarrow> AgentExecution list" where
  "writes [] = []"
| "writes (Saved r # tr) = r # writes tr"
| "writes (SaveRejected r # tr) = writes tr"
| "writes (Executed ty inp # tr) = writes tr"

text \<open>The records passed to \<^verbatim>\<open>save\<close>, accepted or not.\<close>

fun attempted :: "'a trace \<Rightarrow> AgentExecution list" where
  "attempted [] = []"
| "attempted (Saved r # tr) = r # attempted tr"
| "attempted (SaveRejected r # tr) = r # attempted tr"
| "attempted (Executed ty inp # tr) = attempted tr"

text \<open>The executor invocations, in order.\<close>

fun executions :: "'a trace \<Rightarrow> (string \<times> 'a AgentInput) list" where
  "executions [] = []"
| "executions (Saved r # tr) = executions tr"
| "executions (SaveRejected r # tr) = executions tr"
| "executions (Executed ty inp # tr) = (ty, inp) # executions tr"

text \<open>
  What the promise built for one request in \<^verbatim>\<open>executeTasks\<close> settles to when the
  request runs on its own, from the empty trace.
\<close>

definition settled :: "'a AgentRegistry \<Rightarrow> 'a env \<Rightarrow> 'a TaskRequest \<Rightarrow> 'a BatchResult" where
  "settled reg e request =
     (case snd (executeTask reg e (rq_agentType request) (rq_task request) (rq_context request)
                  (rq_projectId request) (rq_taskId request) []) of
        Inr res \<Rightarrow> TaskResult res
      | Inl err \<Rightarrow> Stub \<lparr>fs_success = False, fs_error = message err,
                           fs_agentType = rq_agentType request\<rparr>)"




section \<open>Example inputs\<close>

text \<open>
  The configuration \<^verbatim>\<open>ManagerAgent\<close> passes to its constructor, an executor that
  succeeds, one that returns the failure object the implementations build in their
  \<^verbatim>\<open>catch\<close> blocks, and one registered under a second type.
\<close>

definition manager_config :: AgentConfig where
  "manager_config = \<lparr>name = ''ManagerAgent'', type = ''manager'', enabled = True, role = ''catalyst'',
     description = ''Central coordinator managing other agents'', timeout = 60000,
     retryAttempts = 3, maxConcurrent = 5\<rparr>"

definition testing_config :: AgentConfig where
  "testing_config = \<lparr>name = ''TestingAgent'', type = ''testing'', enabled = True, role = ''tester'',
     description = ''Generates and runs tests'', timeout = 60000,
     retryAttempts = 3, maxConcurrent = 5\<rparr>"

definition succeeding_agent :: "string BaseAgent" where
  "succeeding_agent = \<lparr>config = manager_config,
     execute = (\<lambda>inp. Inr \<lparr>success = True, result = Some (''done: '' @ task inp), error = None,
                            duration = 0, tokensUsed = None, agentExecutionId = None,
                            nextActions = None\<rparr>)\<rparr>"

definition failing_agent :: "string BaseAgent" where
  "failing_agent = \<lparr>config = testing_config,
     execute = (\<lambda>inp. Inr \<lparr>success = False, result = None, error = Some ''boom'',
                            duration = 0, tokensUsed = None, agentExecutionId = None,
                            nextActions = None\<rparr>)\<rparr>"

definition disabled_agent :: "string BaseAgent" where
  "disabled_agent = failing_agent\<lparr>config := manager_config\<lparr>enabled := False\<rparr>\<rparr>"

definition example_registry :: "string AgentRegistry" where
  "example_registry =
     registerAgent ''manager'' succeeding_agent
       (registerAgent ''testing'' failing_agent \<lparr>agents = Map.empty\<rparr>)"

text \<open>An environment in which nothing outside the program fails, and one in which the
  store accepts the first write of a call and rejects the later ones.\<close>

definition env_ok :: "string env" where
  "env_ok = \<lparr>uuidv4 = ''id-1'', iso_timestamp = ''2024-01-01T00:00:00.000Z'',
     generateRequestId = ''req_1'', t_start = 100, t_startedAt = 100, t_try_end = 130,
     t_try_completedAt = 130, t_catch_end = 140, t_catch_completedAt = 140,
     stringify_input = (\<lambda>inp. Inr (task inp)),
     stringify_result = (\<lambda>r. Inr r),
     save_outcome = (\<lambda>k. None)\<rparr>"

definition env_store_down :: "string env" where
  "env_store_down =
     env_ok\<lparr>save_outcome := (\<lambda>k. if k = 0 then None else Some (Error ''connection lost''))\<rparr>"

definition numbered_env :: "nat \<Rightarrow> string env" where
  "numbered_env i = env_ok\<lparr>uuidv4 := ''id-'' @ replicate (Suc i) (CHR ''1'')\<rparr>"

definition plan_input :: "string AgentInput" where
  "plan_input = \<lparr>task = ''plan'', task_context = None, projectId = None, taskId = None,
     metadata = None\<rparr>"

definition step_A :: WorkflowStep where
  "step_A = \<lparr>step_agentType = ''testing'', step_task = ''A'', dependencies = None, condition = None\<rparr>"

definition step_B :: WorkflowStep where
  "step_B = \<lparr>step_agentType = ''manager'', step_task = ''B'', dependencies = None, condition = None\<rparr>"

text \<open>A batch: a request whose executor fails, one for a type nobody registered, and one
  that succeeds.\<close>

definition example_requests :: "string TaskRequest list" where
  "example_requests =
     [\<lparr>rq_agentType = ''testing'', rq_task = ''run tests'', rq_context = None,
       rq_projectId = None, rq_taskId = None\<rparr>,
      \<lparr>rq_agentType = ''planning'', rq_task = ''plan'', rq_context = None,
       rq_projectId = None, rq_taskId = None\<rparr>,
      \<lparr>rq_agentType = ''manager'', rq_task = ''plan'', rq_context = None,
       rq_projectId = None, rq_taskId = None\<rparr>]"





section \<open>Object identity: what \<^verbatim>\<open>getAllAgents\<close> and \<^verbatim>\<open>getConfig\<close> hand out\<close>

text \<open>
  The registry above is a value. To speak about a caller that mutates an object it was
  handed, the objects get addresses here. The heap holds the \<^verbatim>\<open>Map\<close> objects (their
  entries in insertion order, the values being references to agents), the
  \<^verbatim>\<open>AgentConfig\<close> objects, and for every agent object the reference in its field
  \<^verbatim>\<open>config\<close>. A reference below the allocation counter of its store is allocated;
  \<^verbatim>\<open>new Map(...)\<close> and an object literal take the next one.
\<close>

type_synonym ref = nat

record heap =
  map_store :: "ref \<Rightarrow> (string \<times> ref) list"
  next_map :: ref
  config_store :: "ref \<Rightarrow> AgentConfig"
  next_config :: ref
  agent_config :: "ref \<Rightarrow> ref"

text \<open>\<^verbatim>\<open>Map.prototype.set\<close>, \<^verbatim>\<open>get\<close> and \<^verbatim>\<open>delete\<close> on the entries.\<close>

fun Map_set :: "(string \<times> ref) list \<Rightarrow> string \<Rightarrow> ref \<Rightarrow> (string \<times> ref) list" where
  "Map_set [] k v = [(k, v)]"
| "Map_set ((k', v') # entries) k v =
     (if k' = k then (k, v) # entries else (k', v') # Map_set entries k v)"

definition Map_get :: "(string \<times> ref) list \<Rightarrow> string \<Rightarrow> ref option" where
  "Map_get entries k = map_of entries k"

definition Map_delete :: "(string \<times> ref) list \<Rightarrow> string \<Rightarrow> (string \<times> ref) list" where
  "Map_delete entries k = filter (\<lambda>(k', v). k' \<noteq> k) entries"

definition new_Map :: "(string \<times> ref) list \<Rightarrow> heap \<Rightarrow> ref \<times> heap" where
  "new_Map entries h =
     (next_map h, h\<lparr>map_store := (map_store h)(next_map h := entries),
                    next_map := Suc (next_map h)\<rparr>)"

definition new_config :: "AgentConfig \<Rightarrow> heap \<Rightarrow> ref \<times> heap" where
  "new_config c h =
     (next_config h, h\<lparr>config_store := (config_store h)(next_config h := c),
                       next_config := Suc (next_config h)\<rparr>)"

text \<open>\<^verbatim>\<open>return new Map(this.agents)\<close>, where \<open>this_agents\<close> is the reference in the
  field \<^verbatim>\<open>agents\<close>, and \<^verbatim>\<open>return { ...this.config }\<close>.\<close>

definition getAllAgents_h :: "ref \<Rightarrow> heap \<Rightarrow> ref \<times> heap" where
  "getAllAgents_h this_agents h = new_Map (map_store h this_agents) h"

definition getConfig_h :: "ref \<Rightarrow> heap \<Rightarrow> ref \<times> heap" where
  "getConfig_h agent h = new_config (config_store h (agent_config h agent)) h"

definition isEnabled_h :: "ref \<Rightarrow> heap \<Rightarrow> bool" where
  "isEnabled_h agent h = enabled (config_store h (agent_config h agent))"

text \<open>\<^verbatim>\<open>registerAgent\<close> on the heap; its last line calls \<^verbatim>\<open>agent.getConfig()\<close> for
  the log message.\<close>

definition registerAgent_h :: "ref \<Rightarrow> string \<Rightarrow> ref \<Rightarrow> heap \<Rightarrow> heap" where
  "registerAgent_h this_agents ty agent h =
     (if \<not> isEnabled_h agent h then h
      else snd (getConfig_h agent
             (h\<lparr>map_store := (map_store h)(this_agents := Map_set (map_store h this_agents) ty agent)\<rparr>)))"

definition getAgent_h :: "ref \<Rightarrow> string \<Rightarrow> heap \<Rightarrow> ref option" where
  "getAgent_h this_agents ty h = Map_get (map_store h this_agents) ty"

text \<open>\<^verbatim>\<open>getAvailableAgents\<close>: one \<^verbatim>\<open>configs.push(agent.getConfig())\<close> per entry.\<close>

fun push_configs :: "(string \<times> ref) list \<Rightarrow> heap \<Rightarrow> ref list \<times> heap" where
  "push_configs [] h = ([], h)"
| "push_configs ((ty, agent) # entries) h =
     (case getConfig_h agent h of
        (c, h1) \<Rightarrow> (case push_configs entries h1 of (cs, h2) \<Rightarrow> (c # cs, h2)))"

definition getAvailableAgents_h :: "ref \<Rightarrow> heap \<Rightarrow> ref list \<times> heap" where
  "getAvailableAgents_h this_agents h = push_configs (map_store h this_agents) h"

text \<open>What a caller can do to a \<^verbatim>\<open>Map\<close> it holds a reference to, and to a
  configuration object (any assignment to its fields).\<close>

datatype map_mutation = MapSet string ref | MapDelete string | MapClear

fun mutate_map :: "ref \<Rightarrow> map_mutation \<Rightarrow> heap \<Rightarrow> heap" where
  "mutate_map r (MapSet k v) h = h\<lparr>map_store := (map_store h)(r := Map_set (map_store h r) k v)\<rparr>"
| "mutate_map r (MapDelete k) h = h\<lparr>map_store := (map_store h)(r := Map_delete (map_store h r) k)\<rparr>"
| "mutate_map r MapClear h = h\<lparr>map_store := (map_store h)(r := [])\<rparr>"

definition mutate_config :: "ref \<Rightarrow> (AgentConfig \<Rightarrow> AgentConfig) \<Rightarrow> heap \<Rightarrow> heap" where
  "mutate_config c assign h = h\<lparr>config_store := (config_store h)(c := assign (config_store h c))\<rparr>"

text \<open>The methods of the registry that touch \<^verbatim>\<open>this.agents\<close>, and the heap after a
  call. \<^verbatim>\<open>executeTask\<close>, \<^verbatim>\<open>executeTasks\<close> and \<^verbatim>\<open>orchestrateWorkflow\<close> reach
  the map through \<^verbatim>\<open>getAgent\<close> only.\<close>

datatype registry_call =
    RegisterAgent string ref
  | GetAgent string
  | GetAllAgents
  | GetAvailableAgents

fun after_call :: "ref \<Rightarrow> registry_call \<Rightarrow> heap \<Rightarrow> heap" where
  "after_call this_agents (RegisterAgent ty agent) h = registerAgent_h this_agents ty agent h"
| "after_call this_agents (GetAgent ty) h = h"
| "after_call this_agents GetAllAgents h = snd (getAllAgents_h this_agents h)"
| "after_call this_agents GetAvailableAgents h = snd (getAvailableAgents_h this_agents h)"

text \<open>The registry value that a heap stands for, given the executor of every agent
  object.\<close>

definition agent_of :: "(ref \<Rightarrow> 'a AgentInput \<Rightarrow> exn + 'a AgentOutput) \<Rightarrow> heap \<Rightarrow> ref \<Rightarrow> 'a BaseAgent" where
  "agent_of execs h a = \<lparr>config = config_store h (agent_config h a), execute = execs a\<rparr>"

definition registry_of :: "(ref \<Rightarrow> 'a AgentInput \<Rightarrow> exn + 'a AgentOutput) \<Rightarrow> ref \<Rightarrow> heap \<Rightarrow> 'a AgentRegistry" where
  "registry_of execs this_agents h =
     \<lparr>agents = (\<lambda>ty. map_option (agent_of execs h) (Map_get (map_store h this_agents) ty))\<rparr>"

text \<open>A heap with one agent registered under \<open>manager\<close>.\<close>

definition example_heap :: heap where
  "example_heap = \<lparr>map_store = (\<lambda>r. if r = 0 then [(''manager'', 0)] else []), next_map = 1,
     config_store = (\<lambda>c. manager_config), next_config = 1, agent_config = (\<lambda>a. 0)\<rparr>"

section \<open>Properties\<close>

lemmas fixture_defs = example_registry_def registerAgent_def isEnabled_def succeeding_agent_def
  failing_agent_def disabled_agent_def manager_config_def testing_config_def numbered_env_def
  env_ok_def env_store_down_def plan_input_def step_A_def step_B_def

lemmas run_defs = executeTask_def getAgent_def processTask_def catch_with_record_def Let_def
  new_Error_def skipped_def missingDeps_def

subsection \<open>The task wrapper\<close>

lemma processTask_result_indep:
  "snd (processTask agent e inp tr) = snd (processTask agent e inp tr0)"
  by (auto simp: processTask_def catch_with_record_def Let_def split: option.splits sum.splits)


lemma attempted_append: "attempted (xs @ ys) = attempted xs @ attempted ys"
  by (induction xs rule: attempted.induct) auto

lemma terminal_completed:
  assumes "r \<in> set (attempted (fst (processTask agent e inp tr0)))"
      and "r \<notin> set (attempted tr0)" and "ex_status r = Completed"
  shows "\<exists>res. execute agent inp = Inr res \<and> success res
           \<and> stringify_result e (result res) = Inr (ex_output r) \<and> ex_error r = error res"
  using assms
  by (auto simp: processTask_def catch_with_record_def Let_def attempted_append
           split: option.splits sum.splits if_splits)

lemma terminal_status:
  assumes "r \<in> set (attempted (fst (processTask agent e inp tr0)))"
      and "r \<notin> set (attempted tr0)" and "ex_status r \<noteq> Running"
  shows "ex_status r = Failed \<or> ex_status r = Completed"
  using assms
  by (auto simp: processTask_def catch_with_record_def Let_def attempted_append
           split: option.splits sum.splits if_splits)

lemma terminal_error:
  assumes "r \<in> set (attempted (fst (processTask agent e inp tr0)))"
      and "r \<notin> set (attempted tr0)" and "ex_status r \<noteq> Running" and "ex_error r = Some m"
  shows "ex_status r = Failed
       \<or> (\<exists>res. execute agent inp = Inr res \<and> success res \<and> error res = Some m)"
  using assms
  by (auto simp: processTask_def catch_with_record_def Let_def attempted_append
           split: option.splits sum.splits if_splits)

lemma terminal_output:
  assumes "r \<in> set (attempted (fst (processTask agent e inp tr0)))"
      and "r \<notin> set (attempted tr0)" and "ex_status r \<noteq> Running" and "ex_output r = Some out"
  shows "\<exists>res. execute agent inp = Inr res
           \<and> (if success res then stringify_result e (result res) = Inr (Some out)
               else error res = Some out)"
proof (cases "execute agent inp")
  case (Inl err)
  with assms show ?thesis
    by (auto simp: processTask_def catch_with_record_def Let_def attempted_append
             split: option.splits sum.splits)
next
  case (Inr res)
  show ?thesis
  proof (cases "success res")
    case True
    with assms Inr have "stringify_result e (result res) = Inr (Some out)"
      by (auto simp: processTask_def catch_with_record_def Let_def attempted_append
               split: option.splits sum.splits)
    with Inr True show ?thesis by simp
  next
    case False
    with assms Inr have "error res = Some out"
      by (auto simp: processTask_def catch_with_record_def Let_def attempted_append
               split: option.splits sum.splits)
    with Inr False show ?thesis by simp
  qed
qed




text \<open>
  Claim C6, as amended. In every terminal record the wrapper passes to the store: the
  status is \<open>Completed\<close> or \<open>Failed\<close>; it is \<open>Completed\<close> only if the executor
  returned \<^verbatim>\<open>success == true\<close>, and then \<open>output\<close> is the serialized result and
  \<open>error\<close> is a copy of the executor's own \<^verbatim>\<open>result.error\<close>; \<open>output\<close> is
  present only if the executor returned a result, being the serialized result when it
  returned success and a copy of \<^verbatim>\<open>result.error\<close> when it returned
  \<^verbatim>\<open>success == false\<close> (so a \<open>Failed\<close> record can carry an output); \<open>error\<close>
  is present only on a \<open>Failed\<close> record or as that copy of \<^verbatim>\<open>result.error\<close>.
\<close>

theorem terminal_record_fields:
  assumes "r \<in> set (attempted (fst (processTask agent e inp tr)))"
      and "r \<notin> set (attempted tr)" and "ex_status r \<noteq> Running"
  shows "(ex_status r = Failed \<or> ex_status r = Completed)
       \<and> (ex_status r = Completed \<longrightarrow>
            (\<exists>res. execute agent inp = Inr res \<and> success res
                 \<and> stringify_result e (result res) = Inr (ex_output r)
                 \<and> ex_error r = error res))
       \<and> (\<forall>out. ex_output r = Some out \<longrightarrow>
            (\<exists>res. execute agent inp = Inr res
                 \<and> (if success res then stringify_result e (result res) = Inr (Some out)
                     else error res = Some out)))
       \<and> (\<forall>m. ex_error r = Some m \<longrightarrow>
            ex_status r = Failed
          \<or> (\<exists>res. execute agent inp = Inr res \<and> success res \<and> error res = Some m))"
  using terminal_status[OF assms] terminal_completed[OF assms(1,2)]
    terminal_output[OF assms] terminal_error[OF assms]
  by blast

theorem terminal_record_fields_witness:
  "last (attempted (fst (processTask failing_agent env_ok plan_input [])))
      \<in> set (attempted (fst (processTask failing_agent env_ok plan_input [])))
   \<and> ex_status (last (attempted (fst (processTask failing_agent env_ok plan_input [])))) = Failed
   \<and> ex_output (last (attempted (fst (processTask failing_agent env_ok plan_input []))))
       = Some ''boom''"
proof -
  let ?r = "last (attempted (fst (processTask failing_agent env_ok plan_input [])))"
  have h1: "?r \<in> set (attempted (fst (processTask failing_agent env_ok plan_input [])))"
    by (simp add: fixture_defs run_defs)
  have h2: "?r \<notin> set (attempted ([] :: string trace))"
    by simp
  have h3: "ex_status ?r \<noteq> Running"
    by (simp add: fixture_defs run_defs)
  from terminal_record_fields[OF h1 h2 h3] h1 show ?thesis
    by (simp add: fixture_defs run_defs)
qed

text \<open>
  Claim C6 as stated fails: the executor returns
  \<^verbatim>\<open>{ success: false, error: 'boom', duration: 0 }\<close>, and the terminal record has
  status \<open>Failed\<close> with \<open>output\<close> present.
\<close>

theorem failed_record_has_output:
  "map ex_status (writes (fst (processTask failing_agent env_ok plan_input []))) = [Running, Failed]
   \<and> map ex_output (writes (fst (processTask failing_agent env_ok plan_input [])))
       = [None, Some ''boom'']"
  by (simp add: fixture_defs run_defs)

subsection \<open>Running one task\<close>

lemma executeTask_result_indep:
  "snd (executeTask reg e ty tsk ctx pid tid tr) = snd (executeTask reg e ty tsk ctx pid tid tr0)"
proof (cases "getAgent reg ty")
  case None
  then show ?thesis by (simp add: executeTask_def)
next
  case (Some agent)
  let ?inp = "\<lparr>task = tsk, task_context = ctx, projectId = pid, taskId = tid,
                metadata = Some \<lparr>timestamp = iso_timestamp e,
                                  requestId = generateRequestId e\<rparr>\<rparr>"
  have "snd (processTask agent e ?inp tr) = snd (processTask agent e ?inp tr0)"
    by (rule processTask_result_indep)
  with Some show ?thesis
    by (auto simp: executeTask_def Let_def split: prod.splits sum.splits)
qed





text \<open>
  Claim C5, as amended. Registering an executor whose configuration has
  \<^verbatim>\<open>enabled == false\<close> leaves the registry as it was and raises nothing. Afterwards,
  provided no executor was registered under that type before, \<^verbatim>\<open>getAgent\<close> reports
  not-found and \<^verbatim>\<open>executeTask\<close> throws the agent-not-found error with nothing
  written.
\<close>

theorem registerAgent_disabled_skipped:
  assumes "\<not> enabled (config agent)"
  shows "registerAgent ty agent reg = reg
       \<and> (getAgent reg ty = None \<longrightarrow>
            getAgent (registerAgent ty agent reg) ty = None
          \<and> executeTask (registerAgent ty agent reg) e ty tsk ctx pid tid tr
              = (tr, Inl (not_available ty)))"
  using assms by (simp add: registerAgent_def isEnabled_def executeTask_def)

theorem registerAgent_disabled_skipped_witness:
  "\<not> enabled (config disabled_agent)
   \<and> getAgent \<lparr>agents = Map.empty\<rparr> ''manager'' = (None :: string BaseAgent option)
   \<and> getAgent (registerAgent ''manager'' disabled_agent \<lparr>agents = Map.empty\<rparr>) ''manager'' = None
   \<and> executeTask (registerAgent ''manager'' disabled_agent \<lparr>agents = Map.empty\<rparr>) env_ok
         ''manager'' ''plan'' None None None []
       = ([], Inl (not_available ''manager''))"
proof -
  have h1: "\<not> enabled (config disabled_agent)"
    by (simp add: disabled_agent_def manager_config_def)
  have h2: "getAgent \<lparr>agents = Map.empty\<rparr> ''manager'' = (None :: string BaseAgent option)"
    by (simp add: getAgent_def)
  from registerAgent_disabled_skipped[OF h1, of "''manager''" "\<lparr>agents = Map.empty\<rparr>" env_ok
         "''plan''" None None None "[]"] h1 h2
  show ?thesis by blast
qed

text \<open>
  Claim C5 as stated fails: an enabled executor is registered under \<open>manager\<close>, then a
  disabled one is registered under the same type. The registration is skipped, so the
  earlier executor stays: \<^verbatim>\<open>getAgent\<close> finds it and \<^verbatim>\<open>executeTask\<close> runs it.
\<close>

theorem disabled_registration_keeps_earlier_agent:
  "\<not> isEnabled disabled_agent
   \<and> getAgent (registerAgent ''manager'' disabled_agent example_registry) ''manager''
       = Some succeeding_agent
   \<and> map_sum message success
         (snd (executeTask (registerAgent ''manager'' disabled_agent example_registry) env_ok
                 ''manager'' ''plan'' None None None [])) = Inr True"
  by (simp add: fixture_defs run_defs)

subsection \<open>Running a batch\<close>

lemma request_promise_settled:
  "snd (request_promise reg e request tr) = Inr (settled reg e request)"
proof -
  have "snd (executeTask reg e (rq_agentType request) (rq_task request) (rq_context request)
               (rq_projectId request) (rq_taskId request) tr)
      = snd (executeTask reg e (rq_agentType request) (rq_task request) (rq_context request)
               (rq_projectId request) (rq_taskId request) [])"
    by (rule executeTask_result_indep)
  then show ?thesis
    by (auto simp: request_promise_def settled_def catch_promise_def
             split: prod.splits sum.splits)
qed

lemma map_requests_settled:
  "snd (map_requests reg envs i requests tr) =
     map (\<lambda>j. Inr (settled reg (envs (i + j)) (requests ! j))) [0..<length requests]"
proof (induction requests arbitrary: i tr)
  case Nil
  then show ?case by simp
next
  case (Cons request requests)
  obtain tr' p where rp: "request_promise reg (envs i) request tr = (tr', p)"
    by (cases "request_promise reg (envs i) request tr")
  have p: "p = Inr (settled reg (envs i) request)"
    using request_promise_settled[of reg "envs i" request tr] rp by simp
  have "snd (map_requests reg envs i (request # requests) tr)
      = p # snd (map_requests reg envs (Suc i) requests tr')"
    using rp by (simp split: prod.splits)
  also have "\<dots> = Inr (settled reg (envs i) request) #
        map (\<lambda>j. Inr (settled reg (envs (Suc i + j)) (requests ! j))) [0..<length requests]"
    by (simp add: p Cons.IH)
  also have "\<dots> = map (\<lambda>j. Inr (settled reg (envs (i + j)) ((request # requests) ! j)))
                     [0..<length (request # requests)]"
    by (simp add: upt_conv_Cons map_Suc_upt[symmetric] del: upt_Suc)
  finally show ?case .
qed

lemma Promise_all_fulfilled: "Promise_all (map Inr vs) = Inr vs"
  by (induction vs) auto

lemma executeTasks_settled:
  "snd (executeTasks reg envs requests tr) =
     Inr (map (\<lambda>j. settled reg (envs j) (requests ! j)) [0..<length requests])"
proof -
  obtain tr' ps where m: "map_requests reg envs 0 requests tr = (tr', ps)"
    by (cases "map_requests reg envs 0 requests tr")
  have "ps = map Inr (map (\<lambda>j. settled reg (envs j) (requests ! j)) [0..<length requests])"
    using map_requests_settled[of reg envs 0 requests tr] m by simp
  then have "Promise_all ps
      = Inr (map (\<lambda>j. settled reg (envs j) (requests ! j)) [0..<length requests])"
    by (simp only: Promise_all_fulfilled)
  with m show ?thesis
    by (simp add: executeTasks_def)
qed

text \<open>
  Claim C4. \<^verbatim>\<open>executeTasks\<close> never rejects: it fulfils with a list as long as the
  list of requests. The entry at position \<open>i\<close> is what \<^verbatim>\<open>executeTask\<close> gives for
  the \<open>i\<close>-th request, whatever the other calls have written before it: the result
  itself, or, when the call throws (agent-not-found included), the stub
  \<^verbatim>\<open>{ success: false, error, agentType }\<close>. So the entry at position \<open>i\<close> is the
  same in every batch that has the same request at position \<open>i\<close>.
\<close>

theorem executeTasks_position_aligned:
  "\<exists>rs. snd (executeTasks reg envs requests tr) = Inr rs
      \<and> length rs = length requests
      \<and> (\<forall>i<length requests.
            (\<forall>tr0. rs ! i =
               (case snd (executeTask reg (envs i) (rq_agentType (requests ! i))
                            (rq_task (requests ! i)) (rq_context (requests ! i))
                            (rq_projectId (requests ! i)) (rq_taskId (requests ! i)) tr0) of
                  Inr res \<Rightarrow> TaskResult res
                | Inl err \<Rightarrow> Stub \<lparr>fs_success = False, fs_error = message err,
                                     fs_agentType = rq_agentType (requests ! i)\<rparr>))
          \<and> (\<forall>others tr' rs'. snd (executeTasks reg envs others tr') = Inr rs'
                 \<and> i < length others \<and> others ! i = requests ! i \<longrightarrow> rs' ! i = rs ! i))"
proof -
  let ?rs = "map (\<lambda>j. settled reg (envs j) (requests ! j)) [0..<length requests]"
  have 1: "snd (executeTasks reg envs requests tr) = Inr ?rs"
    by (rule executeTasks_settled)
  have 2: "length ?rs = length requests" by simp
  have 3: "?rs ! i =
               (case snd (executeTask reg (envs i) (rq_agentType (requests ! i))
                            (rq_task (requests ! i)) (rq_context (requests ! i))
                            (rq_projectId (requests ! i)) (rq_taskId (requests ! i)) tr0) of
                  Inr res \<Rightarrow> TaskResult res
                | Inl err \<Rightarrow> Stub \<lparr>fs_success = False, fs_error = message err,
                                     fs_agentType = rq_agentType (requests ! i)\<rparr>)"
    if "i < length requests" for i tr0
  proof -
    from that have "?rs ! i = settled reg (envs i) (requests ! i)" by simp
    then show ?thesis
      by (simp only: settled_def executeTask_result_indep[of reg "envs i" _ _ _ _ _ tr0 "[]"])
  qed
  have 4: "rs' ! i = ?rs ! i"
    if "i < length requests" "snd (executeTasks reg envs others tr') = Inr rs'"
       "i < length others" "others ! i = requests ! i" for i others tr' rs'
  proof -
    from that(2) have "rs' = map (\<lambda>j. settled reg (envs j) (others ! j)) [0..<length others]"
      by (simp add: executeTasks_settled)
    with that show ?thesis by simp
  qed
  from 1 2 3 4 show ?thesis by blast
qed

theorem executeTasks_position_aligned_witness:
  "(case snd (executeTasks example_registry numbered_env example_requests []) of
      Inr rs \<Rightarrow>
        length rs = 3
      \<and> rs ! 0 = Stub \<lparr>fs_success = False, fs_error = ''boom'', fs_agentType = ''testing''\<rparr>
      \<and> rs ! 1 = Stub \<lparr>fs_success = False, fs_error = message (not_available ''planning''),
                        fs_agentType = ''planning''\<rparr>
      \<and> (case rs ! 2 of TaskResult res \<Rightarrow> success res | Stub stub \<Rightarrow> False)
    | Inl err \<Rightarrow> False)"
proof -
  have len: "length example_requests = 3"
    by (simp add: example_requests_def)
  from executeTasks_position_aligned[of example_registry numbered_env example_requests "[]"]
  obtain rs where rs: "snd (executeTasks example_registry numbered_env example_requests []) = Inr rs"
    and l: "length rs = length example_requests"
    and at: "\<And>i. i < length example_requests \<Longrightarrow> rs ! i =
               (case snd (executeTask example_registry (numbered_env i)
                            (rq_agentType (example_requests ! i))
                            (rq_task (example_requests ! i)) (rq_context (example_requests ! i))
                            (rq_projectId (example_requests ! i))
                            (rq_taskId (example_requests ! i)) []) of
                  Inr res \<Rightarrow> TaskResult res
                | Inl err \<Rightarrow> Stub \<lparr>fs_success = False, fs_error = message err,
                                     fs_agentType = rq_agentType (example_requests ! i)\<rparr>)"
    by blast
  have 0: "rs ! 0 = Stub \<lparr>fs_success = False, fs_error = ''boom'', fs_agentType = ''testing''\<rparr>"
    using at[of 0] by (simp add: example_requests_def fixture_defs run_defs)
  have 1: "rs ! 1 = Stub \<lparr>fs_success = False, fs_error = message (not_available ''planning''),
                        fs_agentType = ''planning''\<rparr>"
    using at[of 1] by (simp add: example_requests_def fixture_defs run_defs)
  have 2: "(case rs ! 2 of TaskResult res \<Rightarrow> success res | Stub stub \<Rightarrow> False)"
    using at[of 2] by (simp add: example_requests_def fixture_defs run_defs)
  from rs l len 0 1 2 show ?thesis by simp
qed

subsection \<open>Running a workflow\<close>


text \<open>The loop over a list of steps is the loop over its first part, then, unless that
  part aborted, the loop over the rest from the state the first part ended in.\<close>

lemma for_steps_append:
  "for_steps reg nm envs i (xs @ ys) ex sr tr =
     (case for_steps reg nm envs i xs ex sr tr of
        (tr1, Inl err) \<Rightarrow> (tr1, Inl err)
      | (tr1, Inr (ex1, sr1)) \<Rightarrow> for_steps reg nm envs (i + length xs) ys ex1 sr1 tr1)"
proof (induction xs arbitrary: i ex sr tr)
  case Nil
  then show ?case by simp
next
  case (Cons st xs)
  have len: "Suc i + length xs = i + length (st # xs)" by simp
  have continue: ?case
    if l: "for_steps reg nm envs i ((st # xs) @ ys) ex sr tr
             = for_steps reg nm envs (Suc i) (xs @ ys) ex1 sr1 tr1"
    and r: "for_steps reg nm envs i (st # xs) ex sr tr
             = for_steps reg nm envs (Suc i) xs ex1 sr1 tr1"
    for ex1 sr1 tr1
    unfolding l r Cons.IH len ..
  show ?case
  proof (cases "skipped st sr")
    case True
    then show ?thesis by (intro continue) simp_all
  next
    case False
    obtain tr' out where ex: "executeTask reg (envs i) (step_agentType st) (step_task st)
                (Some (PreviousResults sr)) None None tr = (tr', out)"
      by (cases "executeTask reg (envs i) (step_agentType st) (step_task st)
                (Some (PreviousResults sr)) None None tr")
    show ?thesis
    proof (cases out)
      case (Inr res)
      with False ex show ?thesis by (intro continue) simp_all
    next
      case (Inl err)
      show ?thesis
      proof (cases "nm = ''non-critical''")
        case True
        with False ex Inl show ?thesis by (intro continue) simp_all
      next
        case nc: False
        with False ex Inl show ?thesis by simp
      qed
    qed
  qed
qed

text \<open>
  Claim C2. Let the loop reach the step \<open>st\<close>, after the steps \<open>pre\<close>, in the state
  \<open>(ex1, sr1, tr1)\<close>, let \<open>st\<close> not be skipped, and let its \<^verbatim>\<open>executeTask\<close>
  throw \<open>err\<close>. In a workflow whose name is not \<open>non-critical\<close> the loop ends there
  with \<open>err\<close>, whatever steps \<open>rest\<close> follow, and the trace is the trace of the failed
  call: no later step is attempted, dependent on \<open>st\<close> or not. In a workflow named
  \<open>non-critical\<close> the entry \<^verbatim>\<open>{ step, error, status: 'failed' }\<close> is appended
  to the step log and the loop goes on with the next step.
\<close>

theorem workflow_failure_policy:
  assumes pre: "for_steps reg nm envs i pre ex sr tr = (tr1, Inr (ex1, sr1))"
      and run: "\<not> skipped st sr1"
      and fail: "snd (executeTask reg (envs (i + length pre)) (step_agentType st) (step_task st)
                   (Some (PreviousResults sr1)) None None tr1) = Inl err"
  shows "(let tr2 = fst (executeTask reg (envs (i + length pre)) (step_agentType st)
                           (step_task st) (Some (PreviousResults sr1)) None None tr1)
          in for_steps reg nm envs i (pre @ st # rest) ex sr tr =
               (if nm \<noteq> ''non-critical'' then (tr2, Inl err)
                else for_steps reg nm envs (Suc (i + length pre)) rest
                       (ex1 @ [\<lparr>step = st, step_result = None, step_error = Some (message err),
                                  status = ''failed''\<rparr>]) sr1 tr2)
           \<and> (i = 0 \<and> ex = [] \<and> sr = Map.empty \<and> nm \<noteq> ''non-critical'' \<longrightarrow>
                orchestrateWorkflow reg envs \<lparr>wf_name = nm, wf_steps = pre @ st # rest\<rparr> tr
                  = (tr2, Inl err)))"
proof -
  obtain tr2 where ex: "executeTask reg (envs (i + length pre)) (step_agentType st) (step_task st)
                   (Some (PreviousResults sr1)) None None tr1 = (tr2, Inl err)"
    using fail by (cases "executeTask reg (envs (i + length pre)) (step_agentType st) (step_task st)
                   (Some (PreviousResults sr1)) None None tr1") simp
  have "for_steps reg nm envs i (pre @ st # rest) ex sr tr
      = for_steps reg nm envs (i + length pre) (st # rest) ex1 sr1 tr1"
    by (simp add: for_steps_append pre)
  also have "\<dots> = (if nm \<noteq> ''non-critical'' then (tr2, Inl err)
               else for_steps reg nm envs (Suc (i + length pre)) rest
                      (ex1 @ [\<lparr>step = st, step_result = None, step_error = Some (message err),
                                 status = ''failed''\<rparr>]) sr1 tr2)"
    using run ex by simp
  finally have loop: "for_steps reg nm envs i (pre @ st # rest) ex sr tr
      = (if nm \<noteq> ''non-critical'' then (tr2, Inl err)
         else for_steps reg nm envs (Suc (i + length pre)) rest
                (ex1 @ [\<lparr>step = st, step_result = None, step_error = Some (message err),
                           status = ''failed''\<rparr>]) sr1 tr2)" .
  have top: "orchestrateWorkflow reg envs \<lparr>wf_name = nm, wf_steps = pre @ st # rest\<rparr> tr
               = (tr2, Inl err)"
    if "i = 0" "ex = []" "sr = Map.empty" "nm \<noteq> ''non-critical''"
    using loop that by (simp add: orchestrateWorkflow_def)
  from loop top show ?thesis
    unfolding Let_def ex fst_conv by blast
qed

theorem workflow_failure_policy_witness:
  "snd (orchestrateWorkflow example_registry numbered_env
          \<lparr>wf_name = ''critical-flow'', wf_steps = [step_A, step_B]\<rparr> []) = Inl (Error ''boom'')
   \<and> map fst (executions (fst (orchestrateWorkflow example_registry numbered_env
          \<lparr>wf_name = ''critical-flow'', wf_steps = [step_A, step_B]\<rparr> []))) = [''testing'']
   \<and> (case snd (orchestrateWorkflow example_registry numbered_env
                  \<lparr>wf_name = ''non-critical'', wf_steps = [step_A, step_B]\<rparr> []) of
         Inr report \<Rightarrow> map status (steps report) = [''failed'', ''completed'']
       | Inl err \<Rightarrow> False)"
proof -
  have pre: "for_steps example_registry nm numbered_env 0 [] [] Map.empty []
               = ([], Inr ([], Map.empty))" for nm
    by simp
  have run: "\<not> skipped step_A Map.empty"
    by (simp add: skipped_def step_A_def)
  have fail: "snd (executeTask example_registry
                     (numbered_env (0 + length ([] :: WorkflowStep list)))
                     (step_agentType step_A) (step_task step_A)
                     (Some (PreviousResults Map.empty)) None None []) = Inl (Error ''boom'')"
    by (simp add: fixture_defs run_defs)
  note critical = workflow_failure_policy[OF pre run fail, of "''critical-flow''" "[step_B]"]
  note tolerant = workflow_failure_policy[OF pre run fail, of "''non-critical''" "[step_B]"]
  have 1: "snd (orchestrateWorkflow example_registry numbered_env
          \<lparr>wf_name = ''critical-flow'', wf_steps = [step_A, step_B]\<rparr> []) = Inl (Error ''boom'')"
    using critical by (simp add: Let_def del: for_steps.simps)
  have 2: "map fst (executions (fst (orchestrateWorkflow example_registry numbered_env
          \<lparr>wf_name = ''critical-flow'', wf_steps = [step_A, step_B]\<rparr> []))) = [''testing'']"
    using critical by (simp add: orchestrateWorkflow_def fixture_defs run_defs)
  have 3: "(case snd (orchestrateWorkflow example_registry numbered_env
                  \<lparr>wf_name = ''non-critical'', wf_steps = [step_A, step_B]\<rparr> []) of
         Inr report \<Rightarrow> map status (steps report) = [''failed'', ''completed'']
       | Inl err \<Rightarrow> False)"
    using tolerant by (simp add: orchestrateWorkflow_def fixture_defs run_defs)
  from 1 2 3 show ?thesis by blast
qed













subsection \<open>Copies\<close>

lemma fold_mutate_map_frame:
  "r \<noteq> r' \<Longrightarrow> map_store (fold (mutate_map r) mus h) r' = map_store h r'"
proof (induction mus arbitrary: h)
  case Nil
  then show ?case by simp
next
  case (Cons mu mus)
  then show ?case by (cases mu) simp_all
qed

lemma fold_mutate_config_frame:
  "c \<noteq> c' \<Longrightarrow> config_store (fold (\<lambda>assign. mutate_config c assign) assigns h) c' = config_store h c'"
  by (induction assigns arbitrary: h) (simp_all add: mutate_config_def)

lemma push_configs_map_store: "map_store (snd (push_configs entries h)) = map_store h"
  by (induction entries h rule: push_configs.induct)
     (auto simp: getConfig_h_def new_config_def split: prod.splits)

lemma Map_get_set: "Map_get (Map_set entries k v) = (Map_get entries)(k \<mapsto> v)"
  by (induction entries) (auto simp: Map_get_def)

lemma registerAgent_h_refines:
  assumes "\<forall>a. agent_config h a < next_config h"
  shows "registry_of execs this_agents (registerAgent_h this_agents ty agent h)
       = registerAgent ty (agent_of execs h agent) (registry_of execs this_agents h)"
proof (cases "isEnabled_h agent h")
  case False
  then show ?thesis
    by (simp add: registerAgent_h_def registerAgent_def isEnabled_def isEnabled_h_def agent_of_def)
next
  case True
  let ?h' = "registerAgent_h this_agents ty agent h"
  from assms have old: "agent_config h a \<noteq> next_config h" for a
    by (simp add: less_imp_neq)
  have same: "agent_of execs ?h' = agent_of execs h"
    using True by (auto simp: agent_of_def registerAgent_h_def getConfig_h_def new_config_def old)
  have entries: "map_store ?h' this_agents = Map_set (map_store h this_agents) ty agent"
    using True by (simp add: registerAgent_h_def getConfig_h_def new_config_def)
  have "agents (registry_of execs this_agents ?h')
      = (agents (registry_of execs this_agents h))(ty \<mapsto> agent_of execs h agent)"
    unfolding registry_of_def same entries Map_get_set by auto
  moreover have "isEnabled (agent_of execs h agent)"
    using True by (simp add: isEnabled_def isEnabled_h_def agent_of_def)
  ultimately show ?thesis
    by (simp add: registerAgent_def registry_of_def)
qed

lemma getConfig_h_refines:
  "config_store (snd (getConfig_h agent h)) (fst (getConfig_h agent h))
     = getConfig (agent_of execs h agent)"
  by (simp add: getConfig_h_def new_config_def getConfig_def agent_of_def)

lemma getAgent_h_refines:
  "map_option (agent_of execs h) (getAgent_h this_agents ty h) = getAgent (registry_of execs this_agents h) ty"
  by (simp add: getAgent_h_def getAgent_def registry_of_def)

text \<open>
  Claim C10. \<^verbatim>\<open>getAllAgents\<close> returns a new \<^verbatim>\<open>Map\<close> with the entries of the
  registry's map, and whatever the caller then does to the returned map, the
  registry's map keeps its entries. \<^verbatim>\<open>getConfig\<close> returns a new object with the
  fields of the agent's configuration, and whatever the caller assigns to the returned
  object, the agent's stored configuration keeps its fields. Of the calls on the
  registry, only \<^verbatim>\<open>registerAgent\<close> can change the entries of the registry's map.
\<close>

theorem copies_do_not_alias:
  assumes "this_agents < next_map h" and "agent_config h agent < next_config h"
  shows "(case getAllAgents_h this_agents h of
            (r, h') \<Rightarrow>
              r \<noteq> this_agents \<and> map_store h' r = map_store h this_agents
            \<and> (\<forall>mus. map_store (fold (mutate_map r) mus h') this_agents = map_store h this_agents))
       \<and> (case getConfig_h agent h of
            (c, h') \<Rightarrow>
              c \<noteq> agent_config h agent \<and> config_store h' c = config_store h (agent_config h agent)
            \<and> (\<forall>assigns. config_store (fold (mutate_config c) assigns h') (agent_config h' agent)
                         = config_store h (agent_config h agent)))
       \<and> (\<forall>call. map_store (after_call this_agents call h) this_agents \<noteq> map_store h this_agents
            \<longrightarrow> (\<exists>ty a. call = RegisterAgent ty a))"
proof (intro conjI)
  show "case getAllAgents_h this_agents h of
            (r, h') \<Rightarrow>
              r \<noteq> this_agents \<and> map_store h' r = map_store h this_agents
            \<and> (\<forall>mus. map_store (fold (mutate_map r) mus h') this_agents = map_store h this_agents)"
    using assms(1) by (simp add: getAllAgents_h_def new_Map_def fold_mutate_map_frame)
next
  show "case getConfig_h agent h of
            (c, h') \<Rightarrow>
              c \<noteq> agent_config h agent \<and> config_store h' c = config_store h (agent_config h agent)
            \<and> (\<forall>assigns. config_store (fold (mutate_config c) assigns h') (agent_config h' agent)
                         = config_store h (agent_config h agent))"
    using assms(2) by (simp add: getConfig_h_def new_config_def fold_mutate_config_frame)
next
  show "\<forall>call. map_store (after_call this_agents call h) this_agents \<noteq> map_store h this_agents
            \<longrightarrow> (\<exists>ty a. call = RegisterAgent ty a)"
  proof (intro allI impI)
    fix call
    assume changed: "map_store (after_call this_agents call h) this_agents \<noteq> map_store h this_agents"
    show "\<exists>ty a. call = RegisterAgent ty a"
    proof (cases call)
      case (RegisterAgent ty a)
      then show ?thesis by simp
    next
      case (GetAgent ty)
      with changed show ?thesis by simp
    next
      case GetAllAgents
      with changed assms(1) show ?thesis by (simp add: getAllAgents_h_def new_Map_def)
    next
      case GetAvailableAgents
      with changed show ?thesis by (simp add: getAvailableAgents_h_def push_configs_map_store)
    qed
  qed
qed

theorem copies_do_not_alias_witness:
  "0 < next_map example_heap \<and> agent_config example_heap 0 < next_config example_heap
   \<and> fst (getAllAgents_h 0 example_heap) = 1
   \<and> map_store (fold (mutate_map 1) [MapSet ''review'' 0, MapDelete ''manager'', MapClear]
                  (snd (getAllAgents_h 0 example_heap))) 0 = [(''manager'', 0)]
   \<and> fst (getConfig_h 0 example_heap) = 1
   \<and> enabled (config_store (fold (mutate_config 1) [\<lambda>c. c\<lparr>enabled := False\<rparr>]
                               (snd (getConfig_h 0 example_heap))) 0)"
proof -
  have h1: "0 < next_map example_heap"
    by (simp add: example_heap_def)
  have h2: "agent_config example_heap 0 < next_config example_heap"
    by (simp add: example_heap_def)
  obtain hm where r: "getAllAgents_h 0 example_heap = (1, hm)"
    by (simp add: getAllAgents_h_def new_Map_def example_heap_def)
  obtain hc where c: "getConfig_h 0 example_heap = (1, hc)"
    by (simp add: getConfig_h_def new_config_def example_heap_def)
  have m: "map_store example_heap 0 = [(''manager'', 0)]"
    and e: "enabled (config_store example_heap (agent_config example_heap 0))"
    by (simp_all add: example_heap_def manager_config_def)
  have a: "agent_config hc 0 = 0"
    using c by (auto simp: example_heap_def getConfig_h_def new_config_def)
  from copies_do_not_alias[OF h1 h2] r c
  have frame_map: "\<forall>mus. map_store (fold (mutate_map 1) mus hm) 0 = map_store example_heap 0"
    and frame_config: "\<forall>assigns. config_store (fold (mutate_config 1) assigns hc) (agent_config hc 0)
                         = config_store example_heap (agent_config example_heap 0)"
    by simp_all
  from frame_map[rule_format, of "[MapSet ''review'' 0, MapDelete ''manager'', MapClear]"]
       frame_config[rule_format, of "[\<lambda>c. c\<lparr>enabled := False\<rparr>]"]
  have "map_store (fold (mutate_map 1) [MapSet ''review'' 0, MapDelete ''manager'', MapClear] hm) 0
          = [(''manager'', 0)]
     \<and> enabled (config_store (fold (mutate_config 1) [\<lambda>c. c\<lparr>enabled := False\<rparr>] hc) 0)"
    by (simp only: m a e)
  with h1 h2 r c show ?thesis by simp
qed

end
